theory Spec2Isabelle
  imports Main "HOL-Library.Multiset" "HOL-Library.Product_Lexorder"
begin

section \<open>Job run results (core/jobs/types/job\_run\_result.py)\<close>

text \<open>
  A Python \<open>str\<close> is represented by the byte sequence of its UTF-8 encoding, so a
  \<^typ>\<open>string\<close> here is what \<open>len_in_bytes\<close> counts. The encoding is injective, maps the
  empty string to the empty sequence, and maps the newline to the single byte 10, which
  occurs in no other character's encoding; emptiness tests, equality, joining with a
  newline and splitting at newlines are therefore the same on both sides.
\<close>

subsection \<open>Data\<close>

datatype error = ValueError string | IndexError

record JobRunResult =
  stdout :: string
  stderr :: string

definition MAX_OUTPUT_BYTES :: nat where
  "MAX_OUTPUT_BYTES = 1500"

definition newline :: char where
  "newline = CHR 0x0A"

definition convert_to_bytes :: "string \<Rightarrow> char list" where
  \<comment> \<open>Modelled from the spec: \<open>python_utils.convert_to_bytes\<close> is not among the sources;
      the spec measures the UTF-8 byte length of each channel. On the representation
      chosen above the encoder is the identity.\<close>
  "convert_to_bytes s = s"

definition len_in_bytes :: "JobRunResult \<Rightarrow> nat" where
  "len_in_bytes self =
     sum_list (map (\<lambda>output. length output) (map convert_to_bytes [stdout self, stderr self]))"

definition err_empty :: error where
  "err_empty = ValueError ''JobRunResult instances must not be empty''"

definition err_too_big :: error where
  "err_too_big = ValueError ''JobRunResult must not exceed 1500 bytes''"

definition JobRunResult_init :: "string \<Rightarrow> string \<Rightarrow> error + JobRunResult" where
  "JobRunResult_init out err =
     (if out = [] \<and> err = [] then Inl err_empty
      else let self = \<lparr>stdout = out, stderr = err\<rparr>
           in if len_in_bytes self > MAX_OUTPUT_BYTES then Inl err_too_big
              else Inr self)"

subsection \<open>The factories\<close>

text \<open>
  \<open>as_stdout\<close> and \<open>as_stderr\<close> accept any Python value and look at it only through
  \<open>'%s' % (value,)\<close> and \<open>'%r' % (value,)\<close>. A value is therefore given by the two texts
  these conversions produce.
\<close>

record pyvalue =
  percent_s :: string
  percent_r :: string

definition as_stdout :: "pyvalue \<Rightarrow> bool \<Rightarrow> error + JobRunResult" where
  "as_stdout val use_repr =
     (let str_value = (if use_repr then percent_r val else percent_s val)
      in JobRunResult_init str_value [])"

definition as_stderr :: "pyvalue \<Rightarrow> bool \<Rightarrow> error + JobRunResult" where
  "as_stderr val use_repr =
     (let str_value = (if use_repr then percent_r val else percent_s val)
      in JobRunResult_init [] str_value)"

definition empty_str_value :: pyvalue where
  \<comment> \<open>The Python value \<open>''\<close>: \<open>'%s'\<close> gives the empty text, \<open>'%r'\<close> gives two quotes.\<close>
  "empty_str_value = \<lparr>percent_s = [], percent_r = [CHR 0x27, CHR 0x27]\<rparr>"

subsection \<open>The priority queue\<close>

text \<open>
  \<open>heapq\<close> belongs to Python's library. It is modelled by its contract: the heap holds a
  bag of items, \<open>heappush\<close> adds one, \<open>heappop\<close> removes and returns the least one and
  raises \<open>IndexError\<close> on an empty heap. Items are triples \<open>(size, i, result)\<close>, compared
  as Python tuples; the indices \<open>i\<close> of one heap are pairwise distinct, so the pair
  \<open>(size, i)\<close> decides every comparison and the results themselves are never compared.
\<close>

type_synonym heap_item = "nat \<times> nat \<times> JobRunResult"

definition item_key :: "heap_item \<Rightarrow> nat \<times> nat" where
  "item_key = (\<lambda>(result_size, i, result). (result_size, i))"

definition item_result :: "heap_item \<Rightarrow> JobRunResult" where
  "item_result = (\<lambda>(result_size, i, result). result)"

definition heappush :: "heap_item list \<Rightarrow> heap_item \<Rightarrow> heap_item list" where
  "heappush heap item = heap @ [item]"

definition heappop :: "heap_item list \<Rightarrow> error + (heap_item \<times> heap_item list)" where
  "heappop heap =
     (if heap = [] then Inl IndexError
      else let smallest = arg_min_list item_key heap
           in Inr (smallest, remove1 smallest heap))"

subsection \<open>Accumulation\<close>

definition join :: "string \<Rightarrow> string list \<Rightarrow> string" where
  "join sep xs = (case xs of [] \<Rightarrow> [] | y # ys \<Rightarrow> y @ concat (map (\<lambda>z. sep @ z) ys))"

definition padding_of :: "JobRunResult \<Rightarrow> nat" where
  "padding_of next_smallest =
     (if stdout next_smallest \<noteq> [] \<and> stderr next_smallest \<noteq> [] then 2 else 1)"

definition push_results :: "JobRunResult list \<Rightarrow> heap_item list" where
  "push_results results =
     fold (\<lambda>(i, result) heap. heappush heap (len_in_bytes result, i, result))
       (enumerate 0 results) []"

definition loop_body ::
  "JobRunResult list list \<times> nat \<Rightarrow> heap_item \<Rightarrow> error + (JobRunResult list list \<times> nat)" where
  "loop_body st item =
     (case (st, item) of ((batches, latest_batch_size), (result_size, i, next_smallest)) \<Rightarrow>
        let padding = padding_of next_smallest
        in if latest_batch_size + padding + result_size < MAX_OUTPUT_BYTES
           then (if batches = [] then Inl IndexError
                 else Inr (butlast batches @ [last batches @ [next_smallest]],
                           latest_batch_size + (padding + result_size)))
           else Inr (batches @ [[next_smallest]], result_size))"

function accumulate_loop ::
  "heap_item list \<Rightarrow> JobRunResult list list \<times> nat \<Rightarrow> error + JobRunResult list list" where
  "accumulate_loop results_heap st =
     (if results_heap = [] then Inr (fst st)
      else case heappop results_heap of
             Inl e \<Rightarrow> Inl e
           | Inr (item, rest) \<Rightarrow>
               (case loop_body st item of
                  Inl e \<Rightarrow> Inl e
                | Inr st' \<Rightarrow> accumulate_loop rest st'))"
  by pat_completeness auto
termination
proof (relation "measure (\<lambda>(heap, st). length heap)")
  show "wf (measure (\<lambda>(heap, st). length heap))" by simp
next
  fix results_heap :: "heap_item list" and st :: "JobRunResult list list \<times> nat"
    and popped item rest st'
  assume ne: "results_heap \<noteq> []"
    and pop: "heappop results_heap = Inr popped"
    and split: "(item, rest) = popped"
  from ne pop split have "rest = remove1 (arg_min_list item_key results_heap) results_heap"
    by (auto simp: heappop_def Let_def)
  moreover from ne have "arg_min_list item_key results_heap \<in> set results_heap"
    by (rule arg_min_list_in)
  ultimately have "length rest < length results_heap"
    using ne by (simp add: length_remove1)
  then show "((rest, st'), (results_heap, st)) \<in> measure (\<lambda>(heap, st). length heap)"
    by simp
qed

declare accumulate_loop.simps [simp del]

definition merge_batch :: "JobRunResult list \<Rightarrow> error + JobRunResult" where
  "merge_batch batch =
     (let out = join [newline] (filter (\<lambda>s. s \<noteq> []) (map stdout batch));
          err = join [newline] (filter (\<lambda>s. s \<noteq> []) (map stderr batch))
      in JobRunResult_init out err)"

fun batched_results :: "JobRunResult list list \<Rightarrow> error + JobRunResult list" where
  "batched_results [] = Inr []"
| "batched_results (batch # batches) =
     (case merge_batch batch of
        Inl e \<Rightarrow> Inl e
      | Inr r \<Rightarrow> (case batched_results batches of
                    Inl e \<Rightarrow> Inl e
                  | Inr rs \<Rightarrow> Inr (r # rs)))"

definition batches_from_heap :: "heap_item list \<Rightarrow> error + JobRunResult list list" where
  "batches_from_heap heap =
     (case heappop heap of
        Inl e \<Rightarrow> Inl e
      | Inr ((latest_batch_size, i, smallest), results_heap) \<Rightarrow>
          accumulate_loop results_heap ([[smallest]], latest_batch_size))"

definition accumulate_batches :: "JobRunResult list \<Rightarrow> error + JobRunResult list list" where
  "accumulate_batches results = batches_from_heap (push_results results)"

definition accumulate :: "JobRunResult list \<Rightarrow> error + JobRunResult list" where
  "accumulate results =
     (if results = [] then Inr []
      else case accumulate_batches results of
             Inl e \<Rightarrow> Inl e
           | Inr batches \<Rightarrow> batched_results batches)"

subsection \<open>Notions used by the properties\<close>

text \<open>
  A record is valid when the constructor accepts its two channels. \<open>merged\<close> is the
  record that \<open>merge_batch\<close> hands to the constructor and \<open>merged_size\<close> its length in
  bytes. \<open>precise_padding\<close> counts the delimiters that appending a record to a batch
  really adds: one for a channel that is non-empty in the record and already has content
  in the batch. \<open>split_on\<close> is Python's \<open>str.split\<close> at a one-character separator.
\<close>

definition valid :: "JobRunResult \<Rightarrow> bool" where
  "valid r = ((stdout r \<noteq> [] \<or> stderr r \<noteq> []) \<and> len_in_bytes r \<le> MAX_OUTPUT_BYTES)"

definition non_empty :: "string list \<Rightarrow> string list" where
  "non_empty xs = filter (\<lambda>s. s \<noteq> []) xs"

definition merged_size :: "JobRunResult list \<Rightarrow> nat" where
  "merged_size batch =
     length (join [newline] (filter (\<lambda>s. s \<noteq> []) (map stdout batch))) +
     length (join [newline] (filter (\<lambda>s. s \<noteq> []) (map stderr batch)))"

definition precise_padding :: "JobRunResult list \<Rightarrow> JobRunResult \<Rightarrow> nat" where
  "precise_padding batch next_smallest =
     (if stdout next_smallest \<noteq> [] \<and> (\<exists>r \<in> set batch. stdout r \<noteq> []) then 1 else 0) +
     (if stderr next_smallest \<noteq> [] \<and> (\<exists>r \<in> set batch. stderr r \<noteq> []) then 1 else 0)"

fun split_on :: "char \<Rightarrow> string \<Rightarrow> string list" where
  "split_on c [] = [[]]"
| "split_on c (x # xs) =
     (if x = c then [] # split_on c xs
      else (case split_on c xs of [] \<Rightarrow> [[x]] | p # ps \<Rightarrow> (x # p) # ps))"

definition item_ok :: "heap_item \<Rightarrow> bool" where
  "item_ok item = (valid (item_result item) \<and> fst item = len_in_bytes (item_result item))"

definition batch_ok :: "JobRunResult list \<Rightarrow> bool" where
  "batch_ok b = ((\<exists>r \<in> set b. valid r) \<and> merged_size b \<le> MAX_OUTPUT_BYTES)"

definition merged :: "JobRunResult list \<Rightarrow> JobRunResult" where
  "merged batch =
     \<lparr>stdout = join [newline] (filter (\<lambda>s. s \<noteq> []) (map stdout batch)),
      stderr = join [newline] (filter (\<lambda>s. s \<noteq> []) (map stderr batch))\<rparr>"

definition make_item :: "nat \<times> JobRunResult \<Rightarrow> heap_item" where
  "make_item = (\<lambda>(i, result). (len_in_bytes result, i, result))"

definition pieces :: "(JobRunResult \<Rightarrow> string) \<Rightarrow> JobRunResult list \<Rightarrow> string list" where
  "pieces channel out = concat (map (\<lambda>r. split_on newline (channel r)) out)"

definition ab_record :: JobRunResult where
  "ab_record = \<lparr>stdout = [CHR ''a'', newline, CHR ''b''], stderr = []\<rparr>"

text \<open>
  The batching rule in the words of the specification: the records are taken in ascending
  order of \<open>(len_in_bytes, input index)\<close>; the first seeds a batch; each further record is
  appended to the current batch when \<open>current_batch_size + padding + next_size\<close> is
  strictly below \<open>MAX_OUTPUT_BYTES\<close>, and otherwise starts a new batch and resets the
  tracked size to its own.
\<close>

definition threshold_step ::
  "JobRunResult list list \<times> nat \<Rightarrow> JobRunResult \<Rightarrow> JobRunResult list list \<times> nat" where
  "threshold_step st nxt =
     (case st of (batches, current_batch_size) \<Rightarrow>
        if current_batch_size + padding_of nxt + len_in_bytes nxt < MAX_OUTPUT_BYTES
        then (butlast batches @ [last batches @ [nxt]],
              current_batch_size + (padding_of nxt + len_in_bytes nxt))
        else (batches @ [[nxt]], len_in_bytes nxt))"

definition threshold_batches :: "JobRunResult list \<Rightarrow> JobRunResult list list" where
  "threshold_batches consumed =
     (case consumed of
        [] \<Rightarrow> []
      | smallest # others \<Rightarrow> fst (foldl threshold_step ([[smallest]], len_in_bytes smallest) others))"

definition consumed_order :: "JobRunResult list \<Rightarrow> JobRunResult list" where
  "consumed_order results =
     map snd (sort_key (\<lambda>(i, r). (len_in_bytes r, i)) (enumerate 0 results))"

section \<open>Auxiliary facts\<close>

lemma len_in_bytes_eq: "len_in_bytes r = length (stdout r) + length (stderr r)"
  by (simp add: len_in_bytes_def convert_to_bytes_def)

lemma join_Nil: "join sep [] = []"
  by (simp add: join_def)

lemma join_single: "join sep [x] = x"
  by (simp add: join_def)

lemma length_join_snoc:
  "length (join sep (xs @ [x])) =
     (if xs = [] then length x else length (join sep xs) + length sep + length x)"
  by (cases xs) (simp_all add: join_def length_concat)

lemma filter_empty_iff: "(filter (\<lambda>s. s \<noteq> []) (map f b) = []) = (\<forall>r \<in> set b. f r = [])"
  by (induction b) auto

lemma length_join_channel_snoc:
  "length (join [newline] (filter (\<lambda>s. s \<noteq> []) (map f (b @ [r])))) =
     length (join [newline] (filter (\<lambda>s. s \<noteq> []) (map f b))) +
     (if f r \<noteq> [] \<and> (\<exists>x \<in> set b. f x \<noteq> []) then 1 else 0) + length (f r)"
proof (cases "f r = []")
  case True
  then show ?thesis by simp
next
  case False
  then have "filter (\<lambda>s. s \<noteq> []) (map f (b @ [r])) = filter (\<lambda>s. s \<noteq> []) (map f b) @ [f r]"
    by simp
  then show ?thesis
    using False by (simp add: length_join_snoc filter_empty_iff join_Nil)
qed

lemma merged_size_snoc:
  "merged_size (b @ [r]) = merged_size b + precise_padding b r + len_in_bytes r"
  unfolding merged_size_def precise_padding_def len_in_bytes_eq length_join_channel_snoc
  by simp

lemma precise_padding_le: "precise_padding b r \<le> padding_of r"
  by (simp add: precise_padding_def padding_of_def)

lemma merged_size_single: "merged_size [r] = len_in_bytes r"
  by (simp add: merged_size_def len_in_bytes_eq join_def)

lemma heappop_Inr:
  "heap \<noteq> [] \<Longrightarrow>
   heappop heap = Inr (arg_min_list item_key heap, remove1 (arg_min_list item_key heap) heap)"
  by (simp add: heappop_def Let_def)

lemma accumulate_loop_Nil: "accumulate_loop [] st = Inr (fst st)"
  by (subst accumulate_loop.simps) simp

lemma accumulate_loop_step:
  "heap \<noteq> [] \<Longrightarrow>
   accumulate_loop heap st =
     (case loop_body st (arg_min_list item_key heap) of
        Inl e \<Rightarrow> Inl e
      | Inr st' \<Rightarrow> accumulate_loop (remove1 (arg_min_list item_key heap) heap) st')"
  by (subst accumulate_loop.simps) (simp add: heappop_Inr)

lemma loop_body_fits:
  "batches \<noteq> [] \<Longrightarrow> latest + padding_of r + rsize < MAX_OUTPUT_BYTES \<Longrightarrow>
   loop_body (batches, latest) (rsize, i, r) =
     Inr (butlast batches @ [last batches @ [r]], latest + (padding_of r + rsize))"
  by (simp add: loop_body_def)

lemma loop_body_new:
  "\<not> latest + padding_of r + rsize < MAX_OUTPUT_BYTES \<Longrightarrow>
   loop_body (batches, latest) (rsize, i, r) = Inr (batches @ [[r]], rsize)"
  by (simp add: loop_body_def)

lemma batch_ok_snoc:
  assumes "merged_size b \<le> latest" "latest + padding_of r + len_in_bytes r < MAX_OUTPUT_BYTES"
  shows "merged_size (b @ [r]) \<le> latest + (padding_of r + len_in_bytes r)"
  using assms precise_padding_le [of b r] by (simp add: merged_size_snoc)

lemma accumulate_loop_ok:
  "\<lbrakk>\<forall>item \<in> set heap. item_ok item; batches \<noteq> []; \<forall>b \<in> set batches. batch_ok b;
    merged_size (last batches) \<le> latest; latest \<le> MAX_OUTPUT_BYTES\<rbrakk>
   \<Longrightarrow> \<exists>bs. accumulate_loop heap (batches, latest) = Inr bs \<and> (\<forall>b \<in> set bs. batch_ok b)"
proof (induction heap "(batches, latest)" arbitrary: batches latest rule: accumulate_loop.induct)
  case (1 heap)
  show ?case
  proof (cases "heap = []")
    case True
    with "1.prems" show ?thesis by (simp add: accumulate_loop_Nil)
  next
    case False
    define m where "m = arg_min_list item_key heap"
    define rest where "rest = remove1 m heap"
    obtain rsize i r where m: "m = (rsize, i, r)" by (cases m) auto
    have m_in: "m \<in> set heap" using False by (simp add: m_def arg_min_list_in)
    with "1.prems"(1) have ok: "item_ok m" by blast
    then have vr: "valid r" and sz: "rsize = len_in_bytes r"
      by (simp_all add: item_ok_def m item_result_def)
    have rest_ok: "\<forall>item \<in> set rest. item_ok item"
      using "1.prems"(1) by (auto simp: rest_def dest: notin_set_remove1)
    have pop: "heappop heap = Inr (m, rest)"
      using False by (simp add: heappop_Inr m_def rest_def)
    show ?thesis
    proof (cases "latest + padding_of r + rsize < MAX_OUTPUT_BYTES")
      case True
      let ?bs = "butlast batches @ [last batches @ [r]]"
      let ?l = "latest + (padding_of r + rsize)"
      have body: "loop_body (batches, latest) m = Inr (?bs, ?l)"
        using True "1.prems"(2) by (simp add: m loop_body_fits)
      have lastok: "batch_ok (last batches)" using "1.prems"(2,3) by simp
      have szle: "merged_size (last batches @ [r]) \<le> ?l"
        using batch_ok_snoc [of "last batches" latest r] "1.prems"(4) True by (simp add: sz)
      have newok: "batch_ok (last batches @ [r])"
        using szle True lastok by (auto simp: batch_ok_def)
      have allok: "\<forall>b \<in> set ?bs. batch_ok b"
        using "1.prems"(3) newok by (auto dest: in_set_butlastD)
      have "\<exists>bs. accumulate_loop rest (?bs, ?l) = Inr bs \<and> (\<forall>b \<in> set bs. batch_ok b)"
        using "1.hyps" [OF False pop refl body rest_ok _ allok] szle True
        by simp
      then show ?thesis
        using False body by (simp add: accumulate_loop_step m_def [symmetric] rest_def [symmetric])
    next
      case False2: False
      let ?bs = "batches @ [[r]]"
      have body: "loop_body (batches, latest) m = Inr (?bs, rsize)"
        using False2 by (simp add: m loop_body_new)
      have newok: "batch_ok [r]"
        using vr by (simp add: batch_ok_def merged_size_single valid_def)
      have allok: "\<forall>b \<in> set ?bs. batch_ok b"
        using "1.prems"(3) newok by auto
      have "\<exists>bs. accumulate_loop rest (?bs, rsize) = Inr bs \<and> (\<forall>b \<in> set bs. batch_ok b)"
        using "1.hyps" [OF False pop refl body rest_ok _ allok] vr
        by (simp add: merged_size_single sz valid_def)
      then show ?thesis
        using False body by (simp add: accumulate_loop_step m_def [symmetric] rest_def [symmetric])
    qed
  qed
qed

lemma fold_heappush:
  "fold (\<lambda>x heap. heappush heap (g x)) xs acc = acc @ map g xs"
  by (induction xs arbitrary: acc) (simp_all add: heappush_def)

lemma push_results_eq: "push_results results = map make_item (enumerate 0 results)"
proof -
  have "(\<lambda>(i, result) heap. heappush heap (len_in_bytes result, i, result)) =
        (\<lambda>x heap. heappush heap (make_item x))"
    by (auto simp: make_item_def fun_eq_iff)
  then show ?thesis
    by (simp add: push_results_def fold_heappush)
qed

lemma map_item_result_make_item: "map item_result (map make_item (enumerate n rs)) = rs"
proof -
  have "item_result \<circ> make_item = snd"
    by (auto simp: item_result_def make_item_def fun_eq_iff)
  then show ?thesis by simp
qed

lemma distinct_keys_push: "distinct (map item_key (push_results rs))"
proof -
  have "distinct (map (snd \<circ> item_key) (push_results rs))"
  proof -
    have "snd \<circ> item_key \<circ> make_item = fst"
      by (auto simp: make_item_def item_key_def fun_eq_iff)
    then show ?thesis by (simp add: push_results_eq)
  qed
  then show ?thesis
    by (simp add: distinct_map comp_def) (metis (mono_tags, lifting) inj_on_def)
qed

lemma items_ok_push:
  "\<forall>r \<in> set rs. valid r \<Longrightarrow> \<forall>item \<in> set (push_results rs). item_ok item"
  by (auto simp: push_results_eq item_ok_def make_item_def item_result_def in_set_enumerate_eq)

lemma len_in_bytes_merged: "len_in_bytes (merged b) = merged_size b"
  by (simp add: merged_def merged_size_def len_in_bytes_eq)

lemma join_non_empty:
  "xs \<noteq> [] \<Longrightarrow> \<forall>x \<in> set xs. x \<noteq> [] \<Longrightarrow> join sep xs \<noteq> []"
  by (cases xs) (simp_all add: join_def)

lemma join_filter_non_empty:
  "r \<in> set b \<Longrightarrow> f r \<noteq> [] \<Longrightarrow> join sep (filter (\<lambda>s. s \<noteq> []) (map f b)) \<noteq> []"
  by (rule join_non_empty) (auto simp: filter_empty_conv)

lemma merge_batch_ok: "batch_ok b \<Longrightarrow> merge_batch b = Inr (merged b)"
proof -
  assume ok: "batch_ok b"
  then obtain r where r: "r \<in> set b" "stdout r \<noteq> [] \<or> stderr r \<noteq> []"
    by (auto simp: batch_ok_def valid_def)
  then have ne: "stdout (merged b) \<noteq> [] \<or> stderr (merged b) \<noteq> []"
    by (auto simp: merged_def dest: join_filter_non_empty)
  have le: "len_in_bytes (merged b) \<le> MAX_OUTPUT_BYTES"
    using ok by (simp add: len_in_bytes_merged batch_ok_def)
  have "merge_batch b = JobRunResult_init (stdout (merged b)) (stderr (merged b))"
    by (simp add: merge_batch_def merged_def Let_def)
  also have "\<dots> = Inr (merged b)"
    using ne le by (auto simp: JobRunResult_init_def Let_def len_in_bytes_eq)
  finally show ?thesis .
qed

lemma merge_batch_Inr: "merge_batch b = Inr r \<Longrightarrow> r = merged b \<and> len_in_bytes r \<le> MAX_OUTPUT_BYTES"
  by (auto simp: merge_batch_def merged_def JobRunResult_init_def Let_def split: if_splits)

lemma merge_batch_single: "valid r \<Longrightarrow> merge_batch [r] = Inr r"
  by (simp add: merge_batch_def join_def JobRunResult_init_def valid_def Let_def len_in_bytes_eq)

lemma batched_results_ok:
  "\<forall>b \<in> set bs. batch_ok b \<Longrightarrow> batched_results bs = Inr (map merged bs)"
  by (induction bs) (simp_all add: merge_batch_ok)

lemma batched_results_Inr:
  "batched_results bs = Inr out \<Longrightarrow> out = map merged bs \<and> (\<forall>r \<in> set out. len_in_bytes r \<le> MAX_OUTPUT_BYTES)"
  by (induction bs arbitrary: out) (auto split: sum.splits dest: merge_batch_Inr)

lemma distinct_map_remove1:
  assumes "distinct (map f xs)"
  shows "distinct (map f (remove1 x xs))"
proof -
  from assms have "distinct xs" and inj: "inj_on f (set xs)"
    by (simp_all add: distinct_map)
  then have "distinct (remove1 x xs)" by simp
  moreover have "inj_on f (set (remove1 x xs))"
    using inj set_remove1_subset by (rule inj_on_subset)
  ultimately show ?thesis by (simp add: distinct_map)
qed

lemma sort_key_pop:
  fixes f :: "'a \<Rightarrow> 'b::linorder"
  assumes ne: "heap \<noteq> []" and dist: "distinct (map f heap)"
  shows "sort_key f heap =
           arg_min_list f heap # sort_key f (remove1 (arg_min_list f heap) heap)"
proof -
  let ?m = "arg_min_list f heap"
  let ?ys = "?m # sort_key f (remove1 ?m heap)"
  have m_in: "?m \<in> set heap" using ne by (rule arg_min_list_in)
  have dh: "distinct heap" and inj: "inj_on f (set heap)"
    using dist by (simp_all add: distinct_map)
  have least: "f ?m \<le> f x" if "x \<in> set heap" for x
    using that ne by (simp add: f_arg_min_list_f)
  have set_eq: "set (sort_key f heap) = set ?ys"
    using m_in dh by auto
  have sorted_ys: "sorted (map f ?ys)"
    using least by (auto dest: notin_set_remove1)
  have "distinct (map f (remove1 ?m heap))"
    using dist by (simp add: distinct_map_remove1)
  then have dist_ys: "distinct (map f ?ys)"
    using dh inj m_in by (auto simp: distinct_map inj_on_def)
  show ?thesis
  proof (rule map_sorted_distinct_set_unique [where f = f])
    show "inj_on f (set (sort_key f heap) \<union> set ?ys)"
      using inj set_eq by simp
    show "sorted (map f (sort_key f heap))" by simp
    show "distinct (map f (sort_key f heap))"
      using dist by (simp add: distinct_map)
    show "sorted (map f ?ys)" by (rule sorted_ys)
    show "distinct (map f ?ys)" by (rule dist_ys)
    show "set (sort_key f heap) = set ?ys" by (rule set_eq)
  qed
qed

lemma concat_butlast_last:
  "batches \<noteq> [] \<Longrightarrow> concat (butlast batches) @ last batches = concat batches"
  by (induction batches) auto

lemma loop_body_concat:
  "loop_body (batches, latest) item = Inr (bs, l) \<Longrightarrow>
   concat bs = concat batches @ [item_result item]"
  by (cases item)
     (auto simp: loop_body_def Let_def item_result_def concat_butlast_last split: if_splits)

lemma accumulate_loop_order:
  "distinct (map item_key heap) \<Longrightarrow> accumulate_loop heap st = Inr bs \<Longrightarrow>
   concat bs = concat (fst st) @ map item_result (sort_key item_key heap)"
proof (induction heap st arbitrary: bs rule: accumulate_loop.induct)
  case (1 heap st)
  show ?case
  proof (cases "heap = []")
    case True
    with "1.prems" show ?thesis by (simp add: accumulate_loop_Nil)
  next
    case False
    define m where "m = arg_min_list item_key heap"
    define rest where "rest = remove1 m heap"
    have pop: "heappop heap = Inr (m, rest)"
      using False by (simp add: heappop_Inr m_def rest_def)
    have step: "accumulate_loop heap st =
        (case loop_body st m of Inl e \<Rightarrow> Inl e | Inr st' \<Rightarrow> accumulate_loop rest st')"
      unfolding rest_def m_def using False by (rule accumulate_loop_step)
    with "1.prems"(2) obtain st' where body: "loop_body st m = Inr st'"
      and run: "accumulate_loop rest st' = Inr bs"
      by (auto split: sum.splits)
    have dist_rest: "distinct (map item_key rest)"
      using "1.prems"(1) by (simp add: rest_def distinct_map_remove1)
    have "concat bs = concat (fst st') @ map item_result (sort_key item_key rest)"
      using "1.IH" [OF False pop refl body dist_rest run] .
    moreover have "concat (fst st') = concat (fst st) @ [item_result m]"
      using body loop_body_concat [of "fst st" "snd st" m "fst st'" "snd st'"] by simp
    moreover have "sort_key item_key heap = m # sort_key item_key rest"
      using sort_key_pop [OF False "1.prems"(1)] by (simp add: m_def rest_def)
    ultimately show ?thesis by simp
  qed
qed

lemma accumulate_loop_returns:
  "batches \<noteq> [] \<Longrightarrow> \<exists>bs. accumulate_loop heap (batches, latest) = Inr bs \<and> bs \<noteq> []"
proof (induction heap "(batches, latest)" arbitrary: batches latest rule: accumulate_loop.induct)
  case (1 heap)
  show ?case
  proof (cases "heap = []")
    case True
    with "1.prems" show ?thesis by (simp add: accumulate_loop_Nil)
  next
    case False
    define m where "m = arg_min_list item_key heap"
    define rest where "rest = remove1 m heap"
    have pop: "heappop heap = Inr (m, rest)"
      using False by (simp add: heappop_Inr m_def rest_def)
    have step: "accumulate_loop heap (batches, latest) =
        (case loop_body (batches, latest) m of
           Inl e \<Rightarrow> Inl e | Inr st' \<Rightarrow> accumulate_loop rest st')"
      unfolding rest_def m_def using False by (rule accumulate_loop_step)
    have "\<exists>bs' l'. loop_body (batches, latest) m = Inr (bs', l') \<and> bs' \<noteq> []"
      using "1.prems" by (cases m) (auto simp: loop_body_def Let_def)
    then obtain bs' l' where body: "loop_body (batches, latest) m = Inr (bs', l')"
      and ne: "bs' \<noteq> []" by blast
    from "1.hyps" [OF False pop refl body ne] show ?thesis
      by (simp add: step body)
  qed
qed

lemma insort_key_map:
  "insort_key f (g x) (map g xs) = map g (insort_key (\<lambda>y. f (g y)) x xs)"
  by (induction xs) simp_all

lemma sort_key_map: "sort_key f (map g xs) = map g (sort_key (\<lambda>y. f (g y)) xs)"
  by (induction xs) (simp_all add: insort_key_map)

lemma consumption_order:
  "map item_result (sort_key item_key (push_results results)) =
   map snd (sort_key (\<lambda>(i, r). (len_in_bytes r, i)) (enumerate 0 results))"
proof -
  have k: "(\<lambda>y. item_key (make_item y)) = (\<lambda>(i, r). (len_in_bytes r, i))"
    by (auto simp: item_key_def make_item_def fun_eq_iff)
  have r: "item_result \<circ> make_item = snd"
    by (auto simp: item_result_def make_item_def fun_eq_iff)
  show ?thesis
    by (simp add: push_results_eq sort_key_map k r)
qed

lemma push_results_Nil_iff: "(push_results results = []) = (results = [])"
  by (cases results) (simp_all add: push_results_eq)

lemma accumulate_batches_order:
  assumes "results \<noteq> []"
  shows "\<exists>bs. accumulate_batches results = Inr bs \<and>
           concat bs = map item_result (sort_key item_key (push_results results))"
proof -
  let ?heap = "push_results results"
  define m where "m = arg_min_list item_key ?heap"
  define rest where "rest = remove1 m ?heap"
  obtain sz i r where m: "m = (sz, i, r)" by (cases m) auto
  have ne: "?heap \<noteq> []" using assms by (simp add: push_results_Nil_iff)
  have pop: "heappop ?heap = Inr ((sz, i, r), rest)"
    using ne by (simp add: heappop_Inr m_def [symmetric] rest_def m)
  have ab: "accumulate_batches results = accumulate_loop rest ([[r]], sz)"
    by (simp add: accumulate_batches_def batches_from_heap_def pop)
  obtain bs where run: "accumulate_loop rest ([[r]], sz) = Inr bs"
    using accumulate_loop_returns [of "[[r]]" rest sz] by auto
  have "distinct (map item_key rest)"
    unfolding rest_def by (rule distinct_map_remove1) (rule distinct_keys_push)
  then have "concat bs = [r] @ map item_result (sort_key item_key rest)"
    using accumulate_loop_order [OF _ run] by simp
  moreover have "sort_key item_key ?heap = m # sort_key item_key rest"
    unfolding rest_def m_def using ne distinct_keys_push by (rule sort_key_pop)
  ultimately have "concat bs = map item_result (sort_key item_key ?heap)"
    by (simp add: m item_result_def)
  with ab run show ?thesis by simp
qed

lemma accumulate_batches_ok:
  assumes "results \<noteq> []" and "\<forall>r \<in> set results. valid r"
  shows "\<exists>bs. accumulate_batches results = Inr bs \<and> (\<forall>b \<in> set bs. batch_ok b)"
proof -
  let ?heap = "push_results results"
  define m where "m = arg_min_list item_key ?heap"
  define rest where "rest = remove1 m ?heap"
  obtain sz i r where m: "m = (sz, i, r)" by (cases m) auto
  have ne: "?heap \<noteq> []" using assms(1) by (simp add: push_results_Nil_iff)
  have pop: "heappop ?heap = Inr ((sz, i, r), rest)"
    using ne by (simp add: heappop_Inr m_def [symmetric] rest_def m)
  have ab: "accumulate_batches results = accumulate_loop rest ([[r]], sz)"
    by (simp add: accumulate_batches_def batches_from_heap_def pop)
  have all_ok: "\<forall>item \<in> set ?heap. item_ok item"
    using assms(2) by (rule items_ok_push)
  have "m \<in> set ?heap" unfolding m_def using ne by (rule arg_min_list_in)
  with all_ok have "item_ok m" by blast
  then have vr: "valid r" and sz: "sz = len_in_bytes r"
    by (simp_all add: item_ok_def m item_result_def)
  have rest_ok: "\<forall>item \<in> set rest. item_ok item"
    using all_ok by (auto simp: rest_def dest: notin_set_remove1)
  have "\<exists>bs. accumulate_loop rest ([[r]], sz) = Inr bs \<and> (\<forall>b \<in> set bs. batch_ok b)"
    using rest_ok vr
    by (intro accumulate_loop_ok) (simp_all add: batch_ok_def merged_size_single sz valid_def)
  with ab show ?thesis by simp
qed

lemma accumulate_ok:
  assumes "\<forall>r \<in> set results. valid r"
  shows "\<exists>out. accumulate results = Inr out \<and> (\<forall>r \<in> set out. len_in_bytes r \<le> MAX_OUTPUT_BYTES)"
proof (cases "results = []")
  case True
  then show ?thesis by (simp add: accumulate_def)
next
  case False
  then obtain bs where bs: "accumulate_batches results = Inr bs" "\<forall>b \<in> set bs. batch_ok b"
    using accumulate_batches_ok assms by blast
  then have "accumulate results = Inr (map merged bs)"
    using False by (simp add: accumulate_def batched_results_ok)
  moreover have "\<forall>r \<in> set (map merged bs). len_in_bytes r \<le> MAX_OUTPUT_BYTES"
    using bs(2) by (auto simp: len_in_bytes_merged batch_ok_def)
  ultimately show ?thesis by blast
qed

lemma join_Cons2: "join sep (x # y # ys) = x @ sep @ join sep (y # ys)"
  by (simp add: join_def)

lemma split_on_free: "c \<notin> set x \<Longrightarrow> split_on c x = [x]"
  by (induction x) auto

lemma split_on_append: "c \<notin> set x \<Longrightarrow> split_on c (x @ c # rest) = x # split_on c rest"
  by (induction x) auto

lemma split_on_join:
  "xs \<noteq> [] \<Longrightarrow> \<forall>x \<in> set xs. c \<notin> set x \<Longrightarrow> split_on c (join [c] xs) = xs"
proof (induction xs rule: induct_list012)
  case 1
  then show ?case by simp
next
  case (2 x)
  then show ?case by (simp add: join_single split_on_free)
next
  case (3 x y zs)
  then show ?case by (simp add: join_Cons2 split_on_append)
qed

lemma non_empty_split_on_join:
  assumes "\<forall>x \<in> set xs. x \<noteq> [] \<and> c \<notin> set x"
  shows "non_empty (split_on c (join [c] xs)) = xs"
proof (cases "xs = []")
  case True
  then show ?thesis by (simp add: join_Nil non_empty_def)
next
  case False
  then have "split_on c (join [c] xs) = xs"
    using assms by (simp add: split_on_join)
  moreover have "non_empty xs = xs"
    using assms by (simp add: non_empty_def filter_id_conv)
  ultimately show ?thesis by simp
qed

lemma non_empty_split_channel:
  assumes "\<forall>r \<in> set b. newline \<notin> set (f r)"
  shows "non_empty (split_on newline (join [newline] (filter (\<lambda>s. s \<noteq> []) (map f b)))) =
         non_empty (map f b)"
proof -
  have "\<forall>x \<in> set (filter (\<lambda>s. s \<noteq> []) (map f b)). x \<noteq> [] \<and> newline \<notin> set x"
    using assms by auto
  then have "non_empty (split_on newline (join [newline] (filter (\<lambda>s. s \<noteq> []) (map f b)))) =
             filter (\<lambda>s. s \<noteq> []) (map f b)"
    by (rule non_empty_split_on_join)
  then show ?thesis by (simp add: non_empty_def)
qed

lemma non_empty_append: "non_empty (xs @ ys) = non_empty xs @ non_empty ys"
  by (simp add: non_empty_def)

lemma non_empty_pieces_merged:
  assumes "\<forall>b \<in> set bs. \<forall>r \<in> set b. newline \<notin> set (stdout r)"
  shows "non_empty (pieces stdout (map merged bs)) = non_empty (map stdout (concat bs))"
  using assms
proof (induction bs)
  case Nil
  then show ?case by (simp add: pieces_def non_empty_def)
next
  case (Cons b bs)
  have "non_empty (split_on newline (stdout (merged b))) = non_empty (map stdout b)"
    using Cons.prems by (simp add: merged_def non_empty_split_channel)
  moreover have "non_empty (pieces stdout (map merged bs)) = non_empty (map stdout (concat bs))"
    using Cons by simp
  moreover have "pieces stdout (map merged (b # bs)) =
                 split_on newline (stdout (merged b)) @ pieces stdout (map merged bs)"
    by (simp add: pieces_def)
  ultimately show ?case
    by (simp add: non_empty_append)
qed

lemma non_empty_pieces_merged_err:
  assumes "\<forall>b \<in> set bs. \<forall>r \<in> set b. newline \<notin> set (stderr r)"
  shows "non_empty (pieces stderr (map merged bs)) = non_empty (map stderr (concat bs))"
  using assms
proof (induction bs)
  case Nil
  then show ?case by (simp add: pieces_def non_empty_def)
next
  case (Cons b bs)
  have "non_empty (split_on newline (stderr (merged b))) = non_empty (map stderr b)"
    using Cons.prems by (simp add: merged_def non_empty_split_channel)
  moreover have "non_empty (pieces stderr (map merged bs)) = non_empty (map stderr (concat bs))"
    using Cons by simp
  moreover have "pieces stderr (map merged (b # bs)) =
                 split_on newline (stderr (merged b)) @ pieces stderr (map merged bs)"
    by (simp add: pieces_def)
  ultimately show ?case
    by (simp add: non_empty_append)
qed

lemma mset_consumed: "mset (map item_result (sort_key item_key (push_results results))) = mset results"
proof -
  have "mset (map item_result (sort_key item_key (push_results results))) =
        mset (map item_result (push_results results))"
    by simp
  then show ?thesis
    by (simp only: push_results_eq map_item_result_make_item)
qed

lemma accumulate_content:
  assumes "\<forall>r \<in> set results. valid r"
  shows "\<exists>bs. accumulate results = Inr (map merged bs) \<and> mset (concat bs) = mset results"
proof (cases "results = []")
  case True
  then have "accumulate results = Inr (map merged [])" by (simp add: accumulate_def)
  with True show ?thesis by fastforce
next
  case False
  then obtain bs where bs: "accumulate_batches results = Inr bs" "\<forall>b \<in> set bs. batch_ok b"
    using accumulate_batches_ok assms by blast
  then have "accumulate results = Inr (map merged bs)"
    using False by (simp add: accumulate_def batched_results_ok)
  moreover have "mset (concat bs) = mset results"
  proof -
    have "concat bs = map item_result (sort_key item_key (push_results results))"
      using accumulate_batches_order [OF False] bs(1) by simp
    then show ?thesis by (simp only: mset_consumed)
  qed
  ultimately show ?thesis by blast
qed

lemma accumulate_single: "valid r \<Longrightarrow> accumulate [r] = Inr [r]"
proof -
  assume v: "valid r"
  have pop: "heappop (push_results [r]) = Inr ((len_in_bytes r, 0, r), [])"
    by (simp add: push_results_eq make_item_def heappop_def)
  have "accumulate_batches [r] = Inr [[r]]"
    by (simp add: accumulate_batches_def batches_from_heap_def pop accumulate_loop_Nil)
  moreover have "merge_batch [r] = Inr r"
    using v by (simp add: merge_batch_single)
  ultimately show ?thesis by (simp add: accumulate_def)
qed

lemma accumulate_pair_800:
  assumes v1: "valid r1" and v2: "valid r2"
    and l1: "len_in_bytes r1 = 800" and l2: "len_in_bytes r2 = 800"
  shows "accumulate [r1, r2] = Inr [r1, r2]"
proof -
  have heap: "push_results [r1, r2] = [(800, 0, r1), (800, 1, r2)]"
    by (simp add: push_results_eq make_item_def l1 l2)
  have pop1: "heappop (push_results [r1, r2]) = Inr ((800, 0, r1), [(800, 1, r2)])"
    by (simp add: heap heappop_def item_key_def)
  have pop2: "heappop [item] = Inr (item, [])" for item
    by (simp add: heappop_def)
  have body: "loop_body ([[r1]], 800) (800, i, r2) = Inr ([[r1], [r2]], 800)" for i
    by (simp add: loop_body_def MAX_OUTPUT_BYTES_def)
  have "accumulate_loop [(800, 1, r2)] ([[r1]], 800) = Inr [[r1], [r2]]"
    by (subst accumulate_loop.simps) (simp add: pop2 body accumulate_loop_Nil)
  then have "accumulate_batches [r1, r2] = Inr [[r1], [r2]]"
    by (simp add: accumulate_batches_def batches_from_heap_def pop1)
  then show ?thesis
    using v1 v2 by (simp add: accumulate_def merge_batch_single)
qed

lemma arg_min_list_layout:
  fixes f :: "'a \<Rightarrow> 'b::linorder"
  assumes "distinct (map f xs)" "xs \<noteq> []" "mset ys = mset xs"
  shows "arg_min_list f ys = arg_min_list f xs"
proof -
  have sets: "set ys = set xs" using assms(3) by (rule mset_eq_setD)
  then have ne: "ys \<noteq> []" using assms(2) by auto
  have inj: "inj_on f (set xs)" using assms(1) by (simp add: distinct_map)
  have "arg_min_list f ys \<in> set xs" using arg_min_list_in [OF ne] sets by simp
  moreover have "arg_min_list f xs \<in> set xs" using assms(2) by (rule arg_min_list_in)
  moreover have "f (arg_min_list f ys) = f (arg_min_list f xs)"
    using ne assms(2) sets by (simp add: f_arg_min_list_f)
  ultimately show ?thesis using inj by (simp add: inj_on_def)
qed

lemma accumulate_loop_layout:
  "distinct (map item_key heap) \<Longrightarrow> mset heap' = mset heap \<Longrightarrow>
   accumulate_loop heap' st = accumulate_loop heap st"
proof (induction heap st arbitrary: heap' rule: accumulate_loop.induct)
  case (1 heap st)
  show ?case
  proof (cases "heap = []")
    case True
    with "1.prems" show ?thesis by simp
  next
    case False
    then have ne': "heap' \<noteq> []" using "1.prems"(2) by auto
    define m where "m = arg_min_list item_key heap"
    define rest where "rest = remove1 m heap"
    have m': "arg_min_list item_key heap' = m"
      unfolding m_def using "1.prems"(1) False "1.prems"(2) by (rule arg_min_list_layout)
    have pop: "heappop heap = Inr (m, rest)"
      using False by (simp add: heappop_Inr m_def rest_def)
    have step: "accumulate_loop heap st =
        (case loop_body st m of Inl e \<Rightarrow> Inl e | Inr st' \<Rightarrow> accumulate_loop rest st')"
      unfolding rest_def m_def using False by (rule accumulate_loop_step)
    have step': "accumulate_loop heap' st =
        (case loop_body st m of Inl e \<Rightarrow> Inl e
         | Inr st' \<Rightarrow> accumulate_loop (remove1 m heap') st')"
      using accumulate_loop_step [OF ne', of st] by (simp only: m')
    have dist_rest: "distinct (map item_key rest)"
      using "1.prems"(1) by (simp add: rest_def distinct_map_remove1)
    have perm: "mset (remove1 m heap') = mset rest"
      using "1.prems"(2) by (simp add: rest_def)
    show ?thesis
    proof (cases "loop_body st m")
      case (Inl e)
      then show ?thesis by (simp add: step step')
    next
      case (Inr st')
      have "accumulate_loop (remove1 m heap') st' = accumulate_loop rest st'"
        using "1.IH" [OF False pop refl Inr dist_rest perm] .
      then show ?thesis by (simp add: step step' Inr)
    qed
  qed
qed

lemma batches_from_heap_layout:
  assumes "mset heap = mset (push_results results)"
  shows "batches_from_heap heap = accumulate_batches results"
proof (cases "results = []")
  case True
  then have "heap = []" using assms by (simp add: push_results_eq)
  with True show ?thesis
    by (simp add: batches_from_heap_def accumulate_batches_def batches_from_heap_def push_results_eq)
next
  case False
  let ?ph = "push_results results"
  have ne: "?ph \<noteq> []" using False by (simp add: push_results_Nil_iff)
  then have ne': "heap \<noteq> []" using assms by auto
  define m where "m = arg_min_list item_key ?ph"
  have m': "arg_min_list item_key heap = m"
    unfolding m_def using distinct_keys_push ne assms by (rule arg_min_list_layout)
  obtain sz i r where m: "m = (sz, i, r)" by (cases m) auto
  have "distinct (map item_key (remove1 m ?ph))"
    by (rule distinct_map_remove1) (rule distinct_keys_push)
  moreover have "mset (remove1 m heap) = mset (remove1 m ?ph)"
    using assms by simp
  ultimately have "accumulate_loop (remove1 m heap) ([[r]], sz) =
                   accumulate_loop (remove1 m ?ph) ([[r]], sz)"
    by (rule accumulate_loop_layout)
  then show ?thesis
    using ne ne'
    by (simp add: batches_from_heap_def accumulate_batches_def batches_from_heap_def heappop_Inr m' m_def [symmetric] m)
qed

lemma threshold_step_nonempty: "fst (threshold_step (batches, latest) nxt) \<noteq> []"
  by (simp add: threshold_step_def)

lemma loop_body_threshold_step:
  "batches \<noteq> [] \<Longrightarrow> fst item = len_in_bytes (item_result item) \<Longrightarrow>
   loop_body (batches, latest) item = Inr (threshold_step (batches, latest) (item_result item))"
  by (cases item) (simp add: loop_body_def threshold_step_def item_result_def)

lemma accumulate_loop_threshold:
  "\<lbrakk>distinct (map item_key heap); \<forall>item \<in> set heap. fst item = len_in_bytes (item_result item);
    fst st \<noteq> []\<rbrakk>
   \<Longrightarrow> accumulate_loop heap st =
       Inr (fst (foldl threshold_step st (map item_result (sort_key item_key heap))))"
proof (induction heap st rule: accumulate_loop.induct)
  case (1 heap st)
  show ?case
  proof (cases "heap = []")
    case True
    then show ?thesis by (simp add: accumulate_loop_Nil)
  next
    case False
    define m where "m = arg_min_list item_key heap"
    define rest where "rest = remove1 m heap"
    obtain batches latest where st: "st = (batches, latest)" by (cases st)
    have m_in: "m \<in> set heap" using False by (simp add: m_def arg_min_list_in)
    have pop: "heappop heap = Inr (m, rest)"
      using False by (simp add: heappop_Inr m_def rest_def)
    have body: "loop_body st m = Inr (threshold_step st (item_result m))"
      using "1.prems"(2,3) m_in by (simp add: st loop_body_threshold_step)
    have step: "accumulate_loop heap st = accumulate_loop rest (threshold_step st (item_result m))"
      using accumulate_loop_step [OF False, of st] by (simp add: m_def [symmetric] rest_def [symmetric] body)
    have dist_rest: "distinct (map item_key rest)"
      using "1.prems"(1) by (simp add: rest_def distinct_map_remove1)
    have rest_ok: "\<forall>item \<in> set rest. fst item = len_in_bytes (item_result item)"
      using "1.prems"(2) by (auto simp: rest_def dest: notin_set_remove1)
    have ne: "fst (threshold_step st (item_result m)) \<noteq> []"
      by (simp add: st threshold_step_nonempty)
    have sorted: "sort_key item_key heap = m # sort_key item_key rest"
      using sort_key_pop [OF False "1.prems"(1)] by (simp add: m_def rest_def)
    show ?thesis
      using "1.IH" [OF False pop refl body dist_rest rest_ok ne]
      by (simp add: step sorted)
  qed
qed

lemma accumulate_batches_threshold:
  assumes "results \<noteq> []"
  shows "accumulate_batches results = Inr (threshold_batches (consumed_order results))"
proof -
  let ?heap = "push_results results"
  define m where "m = arg_min_list item_key ?heap"
  define rest where "rest = remove1 m ?heap"
  obtain sz i r where m: "m = (sz, i, r)" by (cases m) auto
  have ne: "?heap \<noteq> []" using assms by (simp add: push_results_Nil_iff)
  have all_len: "\<forall>item \<in> set ?heap. fst item = len_in_bytes (item_result item)"
    by (auto simp: push_results_eq make_item_def item_result_def)
  have "m \<in> set ?heap" unfolding m_def using ne by (rule arg_min_list_in)
  with all_len have sz: "sz = len_in_bytes r" by (auto simp: m item_result_def)
  have pop: "heappop ?heap = Inr ((sz, i, r), rest)"
    using ne by (simp add: heappop_Inr m_def [symmetric] rest_def m)
  have ab: "accumulate_batches results = accumulate_loop rest ([[r]], sz)"
    by (simp add: accumulate_batches_def batches_from_heap_def pop)
  have dist_rest: "distinct (map item_key rest)"
    unfolding rest_def by (rule distinct_map_remove1) (rule distinct_keys_push)
  have rest_len: "\<forall>item \<in> set rest. fst item = len_in_bytes (item_result item)"
    using all_len by (auto simp: rest_def dest: notin_set_remove1)
  have run: "accumulate_loop rest ([[r]], sz) =
      Inr (fst (foldl threshold_step ([[r]], sz) (map item_result (sort_key item_key rest))))"
    using dist_rest rest_len by (rule accumulate_loop_threshold) simp
  have "sort_key item_key ?heap = m # sort_key item_key rest"
    unfolding rest_def m_def using ne distinct_keys_push by (rule sort_key_pop)
  then have "consumed_order results = r # map item_result (sort_key item_key rest)"
    using consumption_order [of results] by (simp add: consumed_order_def m item_result_def)
  then show ?thesis
    using run by (simp add: ab threshold_batches_def sz)
qed

lemma accumulate_threshold:
  assumes "\<forall>r \<in> set results. valid r"
  shows "accumulate results = Inr (map merged (threshold_batches (consumed_order results)))"
proof (cases "results = []")
  case True
  then show ?thesis
    by (simp add: accumulate_def threshold_batches_def consumed_order_def)
next
  case False
  obtain bs where bs: "accumulate_batches results = Inr bs" "\<forall>b \<in> set bs. batch_ok b"
    using accumulate_batches_ok [OF False assms] by blast
  then have "bs = threshold_batches (consumed_order results)"
    using accumulate_batches_threshold [OF False] by simp
  then show ?thesis
    using bs False by (simp add: accumulate_def batched_results_ok)
qed

lemma merged_single: "merged [r] = r"
  by (simp add: merged_def join_def)

lemma consumed_order_pair:
  "consumed_order [r1, r2] = (if len_in_bytes r1 \<le> len_in_bytes r2 then [r1, r2] else [r2, r1])"
  by (auto simp: consumed_order_def)

lemma accumulate_pair:
  assumes "valid r1" "valid r2"
  shows "accumulate [r1, r2] =
     (if len_in_bytes r1 \<le> len_in_bytes r2
      then (if len_in_bytes r1 + padding_of r2 + len_in_bytes r2 < MAX_OUTPUT_BYTES
            then Inr [merged [r1, r2]] else Inr [r1, r2])
      else (if len_in_bytes r2 + padding_of r1 + len_in_bytes r1 < MAX_OUTPUT_BYTES
            then Inr [merged [r2, r1]] else Inr [r2, r1]))"
  using assms
  by (simp add: accumulate_threshold consumed_order_pair threshold_batches_def threshold_step_def
        merged_single)

section \<open>Properties of the specification\<close>

text \<open>
  C1. Every record of a list that \<open>accumulate\<close> returns is at most \<open>MAX_OUTPUT_BYTES\<close>
  long; and for every list of valid records (some channel non-empty, at most 1500 bytes)
  \<open>accumulate\<close> does return such a list.
\<close>

theorem accumulate_ceiling:
  "(accumulate results = Inr out \<longrightarrow> (\<forall>r \<in> set out. len_in_bytes r \<le> MAX_OUTPUT_BYTES)) \<and>
   ((\<forall>r \<in> set results. valid r) \<longrightarrow>
      (\<exists>out. accumulate results = Inr out \<and>
             (\<forall>r \<in> set out. len_in_bytes r \<le> MAX_OUTPUT_BYTES)))"
proof -
  have "\<forall>r \<in> set out. len_in_bytes r \<le> MAX_OUTPUT_BYTES" if "accumulate results = Inr out"
    using that
    by (cases "results = []") (auto simp: accumulate_def split: sum.splits dest: batched_results_Inr)
  then show ?thesis
    using accumulate_ok by blast
qed

theorem accumulate_ceiling_witness:
  "\<exists>out. accumulate [\<lparr>stdout = ''out1'', stderr = []\<rparr>, \<lparr>stdout = [], stderr = ''err1''\<rparr>] = Inr out \<and>
         (\<forall>r \<in> set out. len_in_bytes r \<le> MAX_OUTPUT_BYTES)"
  using accumulate_ceiling [of "[\<lparr>stdout = ''out1'', stderr = []\<rparr>, \<lparr>stdout = [], stderr = ''err1''\<rparr>]"]
  by (simp add: valid_def len_in_bytes_eq MAX_OUTPUT_BYTES_def)

text \<open>
  C2, as stated, fails: a channel value may itself contain a newline, and splitting
  an empty channel gives one empty piece. For the valid record with \<open>stdout = "a\nb"\<close>
  the pieces of the output are \<open>a\<close> and \<open>b\<close>, not the input value, and the pieces of its
  empty \<open>stderr\<close> are one empty text, not nothing.
\<close>

theorem split_pieces_counterexample:
  "valid ab_record \<and>
   accumulate [ab_record] = Inr [ab_record] \<and>
   mset (pieces stdout [ab_record]) \<noteq> mset (non_empty (map stdout [ab_record])) \<and>
   mset (non_empty (pieces stdout [ab_record])) \<noteq> mset (non_empty (map stdout [ab_record])) \<and>
   mset (pieces stderr [ab_record]) \<noteq> mset (non_empty (map stderr [ab_record]))"
proof -
  have v: "valid ab_record"
    by (simp add: valid_def ab_record_def len_in_bytes_eq MAX_OUTPUT_BYTES_def)
  have p: "pieces stdout [ab_record] = [''a'', ''b'']"
    by (simp add: pieces_def ab_record_def newline_def)
  have q: "pieces stderr [ab_record] = [[]]"
    by (simp add: pieces_def ab_record_def)
  have i: "non_empty (map stdout [ab_record]) = [[CHR ''a'', newline, CHR ''b'']]"
    by (simp add: non_empty_def ab_record_def)
  have j: "non_empty (map stderr [ab_record]) = []"
    by (simp add: non_empty_def ab_record_def)
  show ?thesis
    using v accumulate_single [OF v] by (simp add: p q i j non_empty_def)
qed

text \<open>
  C2, amended. For every list of valid records none of whose \<open>stdout\<close> values contains
  a newline, the non-empty pieces obtained by splitting each output record's \<open>stdout\<close> at
  newlines are, as a multiset, exactly the non-empty \<open>stdout\<close> values of the input; and the
  same for \<open>stderr\<close>.
\<close>

theorem accumulate_preserves_content:
  assumes "\<forall>r \<in> set results. valid r"
  shows "\<exists>out. accumulate results = Inr out \<and>
     ((\<forall>r \<in> set results. newline \<notin> set (stdout r)) \<longrightarrow>
        mset (non_empty (pieces stdout out)) = mset (non_empty (map stdout results))) \<and>
     ((\<forall>r \<in> set results. newline \<notin> set (stderr r)) \<longrightarrow>
        mset (non_empty (pieces stderr out)) = mset (non_empty (map stderr results)))"
proof -
  obtain bs where acc: "accumulate results = Inr (map merged bs)"
    and perm: "mset (concat bs) = mset results"
    using accumulate_content [OF assms] by blast
  have sets: "set (concat bs) = set results"
    using perm by (rule mset_eq_setD)
  have mset_ne: "mset (non_empty (map f (concat bs))) = mset (non_empty (map f results))"
    for f :: "JobRunResult \<Rightarrow> string"
    using arg_cong [OF perm, of "\<lambda>M. filter_mset (\<lambda>s. s \<noteq> []) (image_mset f M)"]
    by (simp only: non_empty_def mset_filter mset_map)
  have "mset (non_empty (pieces stdout (map merged bs))) = mset (non_empty (map stdout results))"
    if "\<forall>r \<in> set results. newline \<notin> set (stdout r)"
  proof -
    have "\<forall>b \<in> set bs. \<forall>r \<in> set b. newline \<notin> set (stdout r)"
      using that sets by auto
    then show ?thesis by (simp add: non_empty_pieces_merged mset_ne)
  qed
  moreover
  have "mset (non_empty (pieces stderr (map merged bs))) = mset (non_empty (map stderr results))"
    if "\<forall>r \<in> set results. newline \<notin> set (stderr r)"
  proof -
    have "\<forall>b \<in> set bs. \<forall>r \<in> set b. newline \<notin> set (stderr r)"
      using that sets by auto
    then show ?thesis by (simp add: non_empty_pieces_merged_err mset_ne)
  qed
  ultimately show ?thesis using acc by blast
qed

theorem accumulate_preserves_content_witness:
  "\<exists>out. accumulate [\<lparr>stdout = ''out1'', stderr = []\<rparr>, \<lparr>stdout = [], stderr = ''err1''\<rparr>] = Inr out \<and>
     mset (non_empty (pieces stdout out)) = {#''out1''#} \<and>
     mset (non_empty (pieces stderr out)) = {#''err1''#}"
  using accumulate_preserves_content
    [of "[\<lparr>stdout = ''out1'', stderr = []\<rparr>, \<lparr>stdout = [], stderr = ''err1''\<rparr>]"]
  by (simp add: valid_def len_in_bytes_eq MAX_OUTPUT_BYTES_def newline_def non_empty_def)

text \<open>
  C3. For every list of valid records \<open>accumulate\<close> returns normally: the batches are
  built without an error, and the constructor call made for each batch succeeds, so
  neither the emptiness check nor the ceiling check raises.
\<close>

theorem accumulate_never_raises:
  "\<forall>r \<in> set results. valid r \<Longrightarrow>
   (\<exists>out. accumulate results = Inr out) \<and>
   (results \<noteq> [] \<longrightarrow>
      (\<exists>batches. accumulate_batches results = Inr batches \<and>
         (\<forall>batch \<in> set batches. \<exists>r. merge_batch batch = Inr r)))"
proof -
  assume v: "\<forall>r \<in> set results. valid r"
  then have "\<exists>out. accumulate results = Inr out"
    using accumulate_ok by blast
  moreover have "\<exists>batches. accumulate_batches results = Inr batches \<and>
         (\<forall>batch \<in> set batches. \<exists>r. merge_batch batch = Inr r)" if "results \<noteq> []"
    using accumulate_batches_ok [OF that v] merge_batch_ok by blast
  ultimately show ?thesis by blast
qed

theorem accumulate_never_raises_witness:
  "(\<exists>out. accumulate [\<lparr>stdout = ''a'', stderr = ''b''\<rparr>, \<lparr>stdout = ''c'', stderr = []\<rparr>] = Inr out) \<and>
   (\<exists>batches. accumulate_batches [\<lparr>stdout = ''a'', stderr = ''b''\<rparr>, \<lparr>stdout = ''c'', stderr = []\<rparr>] = Inr batches \<and>
      (\<forall>batch \<in> set batches. \<exists>r. merge_batch batch = Inr r))"
  using accumulate_never_raises [of "[\<lparr>stdout = ''a'', stderr = ''b''\<rparr>, \<lparr>stdout = ''c'', stderr = []\<rparr>]"]
  by (simp add: valid_def len_in_bytes_eq MAX_OUTPUT_BYTES_def)

text \<open>
  C4. During accumulation the next-smallest record is appended to the current batch
  exactly when \<open>latest_batch_size + padding + result_size < MAX_OUTPUT_BYTES\<close>, adding
  \<open>padding + result_size\<close> to the tracked size; otherwise a new batch holding only that
  record is started and the tracked size is reset to \<open>result_size\<close>. This holds of the loop
  body and of \<open>accumulate\<close> itself: its batches are those the rule builds over the records
  in consumption order, for valid input its result is these batches merged, and two valid
  records are merged into one exactly when the size of the smaller, the padding of the
  larger and the size of the larger sum to less than the ceiling. Two valid records of 800
  bytes each come back as two separate, unmerged records.
\<close>

theorem loop_body_strict_threshold:
  "(batches \<noteq> [] \<and> latest + padding_of nxt + len_in_bytes nxt < MAX_OUTPUT_BYTES \<longrightarrow>
      loop_body (batches, latest) (len_in_bytes nxt, i, nxt) =
        Inr (butlast batches @ [last batches @ [nxt]],
             latest + (padding_of nxt + len_in_bytes nxt))) \<and>
   (latest + padding_of nxt + len_in_bytes nxt \<ge> MAX_OUTPUT_BYTES \<longrightarrow>
      loop_body (batches, latest) (len_in_bytes nxt, i, nxt) =
        Inr (batches @ [[nxt]], len_in_bytes nxt)) \<and>
   (valid r1 \<and> valid r2 \<and> len_in_bytes r1 = 800 \<and> len_in_bytes r2 = 800 \<longrightarrow>
      accumulate [r1, r2] = Inr [r1, r2]) \<and>
   (results \<noteq> [] \<longrightarrow>
      accumulate_batches results = Inr (threshold_batches (consumed_order results))) \<and>
   ((\<forall>r \<in> set results. valid r) \<longrightarrow>
      accumulate results = Inr (map merged (threshold_batches (consumed_order results)))) \<and>
   (valid r1 \<and> valid r2 \<longrightarrow>
      accumulate [r1, r2] =
        (if len_in_bytes r1 \<le> len_in_bytes r2
         then (if len_in_bytes r1 + padding_of r2 + len_in_bytes r2 < MAX_OUTPUT_BYTES
               then Inr [merged [r1, r2]] else Inr [r1, r2])
         else (if len_in_bytes r2 + padding_of r1 + len_in_bytes r1 < MAX_OUTPUT_BYTES
               then Inr [merged [r2, r1]] else Inr [r2, r1])))"
proof -
  have "accumulate_batches results = Inr (threshold_batches (consumed_order results))"
    if "results \<noteq> []"
    using that by (rule accumulate_batches_threshold)
  moreover
  have "accumulate results = Inr (map merged (threshold_batches (consumed_order results)))"
    if "\<forall>r \<in> set results. valid r"
    using that by (rule accumulate_threshold)
  moreover
  have "accumulate [r1, r2] =
        (if len_in_bytes r1 \<le> len_in_bytes r2
         then (if len_in_bytes r1 + padding_of r2 + len_in_bytes r2 < MAX_OUTPUT_BYTES
               then Inr [merged [r1, r2]] else Inr [r1, r2])
         else (if len_in_bytes r2 + padding_of r1 + len_in_bytes r1 < MAX_OUTPUT_BYTES
               then Inr [merged [r2, r1]] else Inr [r2, r1]))"
    if "valid r1" "valid r2"
    using that by (rule accumulate_pair)
  ultimately show ?thesis
    by (simp add: loop_body_fits loop_body_new accumulate_pair_800)
qed

theorem loop_body_strict_threshold_witness:
  "loop_body ([[\<lparr>stdout = ''a'', stderr = []\<rparr>]], 1) (1, 1, \<lparr>stdout = ''b'', stderr = []\<rparr>) =
     Inr ([[\<lparr>stdout = ''a'', stderr = []\<rparr>, \<lparr>stdout = ''b'', stderr = []\<rparr>]], 3) \<and>
   loop_body ([[\<lparr>stdout = ''a'', stderr = []\<rparr>]], 1498) (1, 1, \<lparr>stdout = ''b'', stderr = []\<rparr>) =
     Inr ([[\<lparr>stdout = ''a'', stderr = []\<rparr>], [\<lparr>stdout = ''b'', stderr = []\<rparr>]], 1) \<and>
   accumulate [\<lparr>stdout = replicate 800 CHR ''a'', stderr = []\<rparr>,
               \<lparr>stdout = [], stderr = replicate 800 CHR ''b''\<rparr>] =
     Inr [\<lparr>stdout = replicate 800 CHR ''a'', stderr = []\<rparr>,
          \<lparr>stdout = [], stderr = replicate 800 CHR ''b''\<rparr>] \<and>
   accumulate [\<lparr>stdout = replicate 750 CHR ''b'', stderr = []\<rparr>,
               \<lparr>stdout = replicate 749 CHR ''a'', stderr = []\<rparr>] =
     Inr [\<lparr>stdout = replicate 749 CHR ''a'', stderr = []\<rparr>,
          \<lparr>stdout = replicate 750 CHR ''b'', stderr = []\<rparr>] \<and>
   accumulate [\<lparr>stdout = replicate 749 CHR ''b'', stderr = []\<rparr>,
               \<lparr>stdout = replicate 748 CHR ''a'', stderr = []\<rparr>] =
     Inr [\<lparr>stdout = replicate 748 CHR ''a'' @ [newline] @ replicate 749 CHR ''b'', stderr = []\<rparr>] \<and>
   accumulate_batches [\<lparr>stdout = ''bb'', stderr = []\<rparr>, \<lparr>stdout = ''a'', stderr = []\<rparr>] =
     Inr [[\<lparr>stdout = ''a'', stderr = []\<rparr>, \<lparr>stdout = ''bb'', stderr = []\<rparr>]] \<and>
   accumulate [\<lparr>stdout = ''bb'', stderr = []\<rparr>, \<lparr>stdout = ''a'', stderr = []\<rparr>] =
     Inr [\<lparr>stdout = [CHR ''a'', newline, CHR ''b'', CHR ''b''], stderr = []\<rparr>]"
proof -
  let ?a = "\<lparr>stdout = ''a'', stderr = []\<rparr>" and ?b = "\<lparr>stdout = ''b'', stderr = []\<rparr>"
  let ?bb = "\<lparr>stdout = ''bb'', stderr = []\<rparr>"
  let ?a800 = "\<lparr>stdout = replicate 800 CHR ''a'', stderr = []\<rparr>"
  let ?b800 = "\<lparr>stdout = [], stderr = replicate 800 CHR ''b''\<rparr>"
  let ?b750 = "\<lparr>stdout = replicate 750 CHR ''b'', stderr = []\<rparr>"
  let ?a749 = "\<lparr>stdout = replicate 749 CHR ''a'', stderr = []\<rparr>"
  let ?b749 = "\<lparr>stdout = replicate 749 CHR ''b'', stderr = []\<rparr>"
  let ?a748 = "\<lparr>stdout = replicate 748 CHR ''a'', stderr = []\<rparr>"
  note defs = padding_of_def len_in_bytes_eq MAX_OUTPUT_BYTES_def valid_def
  have 1: "loop_body ([[?a]], 1) (1, 1, ?b) = Inr ([[?a, ?b]], 3)"
    using loop_body_strict_threshold [of "[[?a]]" 1 ?b 1] by (simp add: defs)
  have 2: "loop_body ([[?a]], 1498) (1, 1, ?b) = Inr ([[?a], [?b]], 1)"
    using loop_body_strict_threshold [of "[[?a]]" 1498 ?b 1] by (simp add: defs)
  have 3: "accumulate [?a800, ?b800] = Inr [?a800, ?b800]"
    using loop_body_strict_threshold [of _ _ _ _ ?a800 ?b800] by (simp add: defs)
  have 4: "accumulate [?b750, ?a749] = Inr [?a749, ?b750]"
    using loop_body_strict_threshold [of _ _ _ _ ?b750 ?a749] by (simp add: defs)
  have 5: "accumulate [?b749, ?a748] =
      Inr [\<lparr>stdout = replicate 748 CHR ''a'' @ [newline] @ replicate 749 CHR ''b'', stderr = []\<rparr>]"
    using loop_body_strict_threshold [of _ _ _ _ ?b749 ?a748]
    by (simp add: defs merged_def join_def)
  have 6: "accumulate_batches [?bb, ?a] = Inr [[?a, ?bb]]"
    using loop_body_strict_threshold [of _ _ _ _ _ _ "[?bb, ?a]"]
    by (simp add: defs consumed_order_pair threshold_batches_def threshold_step_def)
  have 7: "accumulate [?bb, ?a] = Inr [\<lparr>stdout = [CHR ''a'', newline, CHR ''b'', CHR ''b''], stderr = []\<rparr>]"
    using loop_body_strict_threshold [of _ _ _ _ _ _ "[?bb, ?a]"]
    by (simp add: defs consumed_order_pair threshold_batches_def threshold_step_def merged_def join_def)
  from 1 2 3 4 5 6 7 show ?thesis by blast
qed

text \<open>
  C5, as stated, fails: the padding is computed from the next record alone. With a batch
  holding only \<open>stdout = "a"\<close> and a next record holding only \<open>stderr = "b"\<close>, no
  delimiter is added to either channel, yet one byte is charged: the tracked size becomes
  3 while the merged record has 2 bytes.
\<close>

theorem flat_padding_counterexample:
  "padding_of \<lparr>stdout = [], stderr = ''b''\<rparr> = 1 \<and>
   precise_padding [\<lparr>stdout = ''a'', stderr = []\<rparr>] \<lparr>stdout = [], stderr = ''b''\<rparr> = 0 \<and>
   loop_body ([[\<lparr>stdout = ''a'', stderr = []\<rparr>]], 1) (1, 1, \<lparr>stdout = [], stderr = ''b''\<rparr>) =
     Inr ([[\<lparr>stdout = ''a'', stderr = []\<rparr>, \<lparr>stdout = [], stderr = ''b''\<rparr>]], 3) \<and>
   merged_size [\<lparr>stdout = ''a'', stderr = []\<rparr>, \<lparr>stdout = [], stderr = ''b''\<rparr>] = 2"
  by (simp add: padding_of_def precise_padding_def loop_body_def merged_size_def join_def
        MAX_OUTPUT_BYTES_def)

text \<open>
  C5, amended. The padding charged for the next record is 2 when both of its channels
  are non-empty and 1 otherwise, whatever the batch holds. It is never less than the
  number of delimiters that appending the record really adds, which is one for each
  channel that is non-empty in the record and already has content in the batch.
\<close>

theorem padding_from_next_record:
  "(batches \<noteq> [] \<and> loop_body (batches, latest) (sz, i, nxt) = Inr (batches', latest') \<and>
      length batches' = length batches \<longrightarrow>
      latest' = latest + ((if stdout nxt \<noteq> [] \<and> stderr nxt \<noteq> [] then 2 else 1) + sz)) \<and>
   precise_padding batch nxt \<le> (if stdout nxt \<noteq> [] \<and> stderr nxt \<noteq> [] then 2 else 1) \<and>
   merged_size (batch @ [nxt]) = merged_size batch + precise_padding batch nxt + len_in_bytes nxt"
proof -
  have "latest' = latest + ((if stdout nxt \<noteq> [] \<and> stderr nxt \<noteq> [] then 2 else 1) + sz)"
    if "batches \<noteq> []" "loop_body (batches, latest) (sz, i, nxt) = Inr (batches', latest')"
      "length batches' = length batches"
    using that by (auto simp: loop_body_def Let_def padding_of_def split: if_splits)
  moreover have "precise_padding batch nxt \<le> (if stdout nxt \<noteq> [] \<and> stderr nxt \<noteq> [] then 2 else 1)"
    using precise_padding_le [of batch nxt] by (simp add: padding_of_def)
  ultimately show ?thesis
    by (simp add: merged_size_snoc)
qed

theorem padding_from_next_record_witness:
  "precise_padding [\<lparr>stdout = ''a'', stderr = []\<rparr>] \<lparr>stdout = ''c'', stderr = ''b''\<rparr> \<le> 2 \<and>
   merged_size ([\<lparr>stdout = ''a'', stderr = []\<rparr>] @ [\<lparr>stdout = ''c'', stderr = ''b''\<rparr>]) =
     merged_size [\<lparr>stdout = ''a'', stderr = []\<rparr>] +
     precise_padding [\<lparr>stdout = ''a'', stderr = []\<rparr>] \<lparr>stdout = ''c'', stderr = ''b''\<rparr> + 2 \<and>
   loop_body ([[\<lparr>stdout = ''a'', stderr = []\<rparr>]], 1) (2, 1, \<lparr>stdout = ''c'', stderr = ''b''\<rparr>) =
     Inr ([[\<lparr>stdout = ''a'', stderr = []\<rparr>, \<lparr>stdout = ''c'', stderr = ''b''\<rparr>]], 5) \<and>
   (5::nat) = 1 + (2 + 2)"
  using padding_from_next_record
      [of "[[\<lparr>stdout = ''a'', stderr = []\<rparr>]]" 1 2 1 "\<lparr>stdout = ''c'', stderr = ''b''\<rparr>"
          "[[\<lparr>stdout = ''a'', stderr = []\<rparr>, \<lparr>stdout = ''c'', stderr = ''b''\<rparr>]]" 5
          "[\<lparr>stdout = ''a'', stderr = []\<rparr>]"]
  by (simp add: len_in_bytes_eq loop_body_def padding_of_def MAX_OUTPUT_BYTES_def)

text \<open>
  C6. \<open>accumulate\<close> consumes the records in ascending order of
  \<open>(len_in_bytes, input index)\<close>: the batches, read one after the other, are the input
  sorted by that key, and for valid input the output is the batches merged in that order.
  For the three one-byte records \<open>a\<close>, \<open>b\<close>, \<open>c\<close> the result is the single record with
  \<open>stdout = "a\nb\nc"\<close> and empty \<open>stderr\<close>.
\<close>

theorem accumulate_consumption_order:
  "(results \<noteq> [] \<longrightarrow>
      (\<exists>batches. accumulate_batches results = Inr batches \<and>
         concat batches =
           map snd (sort_key (\<lambda>(i, r). (len_in_bytes r, i)) (enumerate 0 results)) \<and>
         ((\<forall>r \<in> set results. valid r) \<longrightarrow> accumulate results = Inr (map merged batches)))) \<and>
   accumulate [\<lparr>stdout = ''a'', stderr = []\<rparr>, \<lparr>stdout = ''b'', stderr = []\<rparr>,
               \<lparr>stdout = ''c'', stderr = []\<rparr>] =
     Inr [\<lparr>stdout = [CHR ''a'', newline, CHR ''b'', newline, CHR ''c''], stderr = []\<rparr>]"
proof -
  have "\<exists>batches. accumulate_batches results = Inr batches \<and>
         concat batches =
           map snd (sort_key (\<lambda>(i, r). (len_in_bytes r, i)) (enumerate 0 results)) \<and>
         ((\<forall>r \<in> set results. valid r) \<longrightarrow> accumulate results = Inr (map merged batches))"
    if ne: "results \<noteq> []"
  proof -
    obtain bs where bs: "accumulate_batches results = Inr bs"
      and order: "concat bs = map item_result (sort_key item_key (push_results results))"
      using accumulate_batches_order [OF ne] by blast
    have "accumulate results = Inr (map merged bs)" if "\<forall>r \<in> set results. valid r"
      using accumulate_batches_ok [OF ne that] bs ne
      by (auto simp: accumulate_def batched_results_ok)
    then show ?thesis
      using bs order by (simp add: consumption_order)
  qed
  moreover
  have "accumulate [\<lparr>stdout = ''a'', stderr = []\<rparr>, \<lparr>stdout = ''b'', stderr = []\<rparr>,
               \<lparr>stdout = ''c'', stderr = []\<rparr>] =
     Inr [\<lparr>stdout = [CHR ''a'', newline, CHR ''b'', newline, CHR ''c''], stderr = []\<rparr>]"
    by code_simp
  ultimately show ?thesis by blast
qed

theorem accumulate_consumption_order_witness:
  "\<exists>batches. accumulate_batches [\<lparr>stdout = ''bb'', stderr = []\<rparr>, \<lparr>stdout = ''a'', stderr = []\<rparr>,
                                   \<lparr>stdout = [], stderr = ''c''\<rparr>] = Inr batches \<and>
      concat batches = [\<lparr>stdout = ''a'', stderr = []\<rparr>, \<lparr>stdout = [], stderr = ''c''\<rparr>,
                        \<lparr>stdout = ''bb'', stderr = []\<rparr>] \<and>
      accumulate [\<lparr>stdout = ''bb'', stderr = []\<rparr>, \<lparr>stdout = ''a'', stderr = []\<rparr>,
                  \<lparr>stdout = [], stderr = ''c''\<rparr>] = Inr (map merged batches)"
  using accumulate_consumption_order
    [of "[\<lparr>stdout = ''bb'', stderr = []\<rparr>, \<lparr>stdout = ''a'', stderr = []\<rparr>,
          \<lparr>stdout = [], stderr = ''c''\<rparr>]"]
  by (simp add: valid_def len_in_bytes_eq MAX_OUTPUT_BYTES_def)

text \<open>
  C7. The constructor raises exactly when both channels are empty or the combined byte
  length exceeds \<open>MAX_OUTPUT_BYTES\<close>; what it raises is a \<open>ValueError\<close>; with a combined
  length of exactly \<open>MAX_OUTPUT_BYTES\<close> and a non-empty channel it succeeds.
\<close>

theorem JobRunResult_init_raises_iff:
  "((\<exists>e. JobRunResult_init out err = Inl e) \<longleftrightarrow>
      (out = [] \<and> err = []) \<or>
      length (convert_to_bytes out) + length (convert_to_bytes err) > MAX_OUTPUT_BYTES) \<and>
   (\<forall>e. JobRunResult_init out err = Inl e \<longrightarrow> (\<exists>msg. e = ValueError msg)) \<and>
   ((out \<noteq> [] \<or> err \<noteq> []) \<and>
    length (convert_to_bytes out) + length (convert_to_bytes err) = MAX_OUTPUT_BYTES \<longrightarrow>
      JobRunResult_init out err = Inr \<lparr>stdout = out, stderr = err\<rparr>)"
  by (auto simp: JobRunResult_init_def Let_def len_in_bytes_def err_empty_def err_too_big_def)

theorem JobRunResult_init_raises_iff_witness:
  "JobRunResult_init (replicate 1500 CHR ''x'') [] = Inr \<lparr>stdout = replicate 1500 CHR ''x'', stderr = []\<rparr> \<and>
   (\<exists>e. JobRunResult_init (replicate 1500 CHR ''x'') ''y'' = Inl e) \<and>
   (\<exists>e. JobRunResult_init [] [] = Inl e)"
  using JobRunResult_init_raises_iff [of "replicate 1500 CHR ''x''" "[]"]
    JobRunResult_init_raises_iff [of "replicate 1500 CHR ''x''" "''y''"]
    JobRunResult_init_raises_iff [of "[]" "[]"]
  by (simp add: convert_to_bytes_def MAX_OUTPUT_BYTES_def)

text \<open>
  C8. Two calls of \<open>accumulate\<close> on the same list give the same outcome: the same number
  of records, equal in \<open>stdout\<close> and \<open>stderr\<close> position by position. The outcome does not
  depend on how the heap arranges its items either: any heap holding the items pushed for
  the input yields the same batches.
\<close>

theorem accumulate_deterministic:
  "(results1 = results2 \<longrightarrow> accumulate results1 = accumulate results2) \<and>
   (accumulate results = Inr out1 \<and> accumulate results = Inr out2 \<longrightarrow>
      length out1 = length out2 \<and>
      (\<forall>k < length out1. stdout (out1 ! k) = stdout (out2 ! k) \<and>
                         stderr (out1 ! k) = stderr (out2 ! k))) \<and>
   (mset heap = mset (push_results results) \<longrightarrow>
      batches_from_heap heap = accumulate_batches results)"
  by (auto simp: batches_from_heap_layout)

theorem accumulate_deterministic_witness:
  "batches_from_heap [(1, 1, \<lparr>stdout = ''b'', stderr = []\<rparr>), (1, 0, \<lparr>stdout = ''a'', stderr = []\<rparr>)] =
     accumulate_batches [\<lparr>stdout = ''a'', stderr = []\<rparr>, \<lparr>stdout = ''b'', stderr = []\<rparr>] \<and>
   accumulate [\<lparr>stdout = ''a'', stderr = []\<rparr>, \<lparr>stdout = ''b'', stderr = []\<rparr>] =
     accumulate [\<lparr>stdout = ''a'', stderr = []\<rparr>, \<lparr>stdout = ''b'', stderr = []\<rparr>]"
  using accumulate_deterministic
    [of "[\<lparr>stdout = ''a'', stderr = []\<rparr>, \<lparr>stdout = ''b'', stderr = []\<rparr>]"
        "[\<lparr>stdout = ''a'', stderr = []\<rparr>, \<lparr>stdout = ''b'', stderr = []\<rparr>]"
        "[\<lparr>stdout = ''a'', stderr = []\<rparr>, \<lparr>stdout = ''b'', stderr = []\<rparr>]" _ _
        "[(1, 1, \<lparr>stdout = ''b'', stderr = []\<rparr>), (1, 0, \<lparr>stdout = ''a'', stderr = []\<rparr>)]"]
  by (simp add: push_results_eq make_item_def len_in_bytes_eq)

text \<open>
  C9, as stated, fails: the conversion of a value can be the empty text. For the value
  \<open>''\<close> with \<open>use_repr\<close> false both factories raise the emptiness error.
\<close>

theorem as_stdout_empty_counterexample:
  "as_stdout empty_str_value False = Inl err_empty \<and>
   as_stderr empty_str_value False = Inl err_empty"
  by (simp add: as_stdout_def as_stderr_def empty_str_value_def JobRunResult_init_def)

text \<open>
  C9, amended. \<open>as_stdout\<close> and \<open>as_stderr\<close> fail on account of emptiness exactly when
  the chosen conversion of the value is the empty text; when the conversion is non-empty
  their only possible failure is exceeding the byte ceiling.
\<close>

theorem factories_failures:
  "(as_stdout val use_repr = Inl err_empty \<longleftrightarrow>
      (if use_repr then percent_r val else percent_s val) = []) \<and>
   (as_stderr val use_repr = Inl err_empty \<longleftrightarrow>
      (if use_repr then percent_r val else percent_s val) = []) \<and>
   ((if use_repr then percent_r val else percent_s val) \<noteq> [] \<longrightarrow>
      (\<forall>e. as_stdout val use_repr = Inl e \<or> as_stderr val use_repr = Inl e \<longrightarrow>
         e = err_too_big \<and>
         length (convert_to_bytes (if use_repr then percent_r val else percent_s val))
           > MAX_OUTPUT_BYTES))"
  by (auto simp: as_stdout_def as_stderr_def JobRunResult_init_def Let_def len_in_bytes_def
        convert_to_bytes_def err_empty_def err_too_big_def split: if_splits)

theorem factories_failures_witness:
  "as_stdout empty_str_value True = Inr \<lparr>stdout = [CHR 0x27, CHR 0x27], stderr = []\<rparr> \<and>
   as_stderr empty_str_value True \<noteq> Inl err_empty \<and>
   as_stdout \<lparr>percent_s = replicate 1501 CHR ''x'', percent_r = []\<rparr> False \<noteq> Inl err_empty \<and>
   as_stdout \<lparr>percent_s = replicate 1501 CHR ''x'', percent_r = []\<rparr> True = Inl err_empty"
  using factories_failures [of empty_str_value True]
    factories_failures [of "\<lparr>percent_s = replicate 1501 CHR ''x'', percent_r = []\<rparr>" False]
    factories_failures [of "\<lparr>percent_s = replicate 1501 CHR ''x'', percent_r = []\<rparr>" True]
  by (simp add: empty_str_value_def as_stdout_def JobRunResult_init_def len_in_bytes_eq
        MAX_OUTPUT_BYTES_def)

text \<open>
  C10. Accumulating a single valid record returns that record alone: same \<open>stdout\<close>,
  same \<open>stderr\<close>.
\<close>

theorem accumulate_singleton:
  "valid r \<Longrightarrow> accumulate [r] = Inr [r]"
  by (rule accumulate_single)

theorem accumulate_singleton_witness:
  "accumulate [\<lparr>stdout = ''out1'', stderr = ''err1''\<rparr>] = Inr [\<lparr>stdout = ''out1'', stderr = ''err1''\<rparr>]"
  using accumulate_singleton [of "\<lparr>stdout = ''out1'', stderr = ''err1''\<rparr>"]
  by (simp add: valid_def len_in_bytes_eq MAX_OUTPUT_BYTES_def)

end
